theory Spec2Isabelle
  imports Complex_Main "HOL-Library.Multiset"
begin

section \<open>Data model of the order panel\<close>

text \<open>
  The panel lives in \<^verbatim>\<open>src/components/real-time/order-panel.tsx\<close>. A JavaScript
  \<^verbatim>\<open>number\<close> is modelled as a real number: rounding, NaN and the infinities of
  IEEE doubles are outside this model. The four status strings are a datatype, as the
  union type of \<^verbatim>\<open>IFilterOrder\<close> (lines 17 and 20) restricts them.
\<close>

type_synonym number = real

datatype status = Pending | Preparing | Served | Ready

text \<open>
  The entry \<^verbatim>\<open>{ dish_id, quantity }\<close> that line 204 submits is the root of the item
  records; an order's line item adds the optional instructions, and an item of
  \<^verbatim>\<open>IFilterOrder\<close> (lines 11-18) adds the resolved name, the line total (field
  \<^verbatim>\<open>total\<close> in the source) and the item status.
\<close>

record item_ref =
  dish_id :: string
  quantity :: number

record order_item = item_ref +
  instructions :: "string option"

record view_item = order_item +
  dish_name :: string
  line_total :: number
  item_status :: status

text \<open>
  Modelled from the spec: the declarations of \<^verbatim>\<open>IDineInOrder\<close>, \<^verbatim>\<open>IDish\<close>,
  \<^verbatim>\<open>IDineInTable\<close> and \<^verbatim>\<open>IDineInTableStats\<close> are imported from
  \<^verbatim>\<open>@/libs/api\<close>, which is not part of the sources. The records below hold the fields
  that the panel reads, typed as section 3 of the specification describes them. The field
  \<^verbatim>\<open>created_at\<close> holds the value of \<^verbatim>\<open>new Date(created_at).getTime()\<close>. Fields whose
  source names would clash carry a prefix: \<^verbatim>\<open>o_\<close> for the order, \<^verbatim>\<open>d_\<close> for the
  dish, \<^verbatim>\<open>s_\<close> for a status entry and \<^verbatim>\<open>st_\<close> for the statistics of a table.
\<close>

record IDineInOrder =
  o_id :: string
  o_table_id :: string
  created_at :: int
  o_updated_at :: string
  order_status :: status
  o_items :: "order_item list"

record IDish =
  d_id :: string
  d_name :: string
  price :: number

record IDineInTable =
  table_number :: string

record stat_item =
  s_dish_id :: string
  s_item_status :: status

record IDineInTableStats =
  st_table_number :: string
  st_items :: "stat_item list"

text \<open>The interface \<^verbatim>\<open>IFilterOrder\<close> of lines 7-21.\<close>

record IFilterOrder =
  order_id :: string
  table_id :: string
  updated_at :: string
  items :: "view_item list"
  total :: number
  status :: status

text \<open>
  The four collections that \<^verbatim>\<open>genOrders\<close> reads: the props \<^verbatim>\<open>orders\<close>,
  \<^verbatim>\<open>dishes\<close> and \<^verbatim>\<open>tables\<close>, and the state \<^verbatim>\<open>tableStats\<close>. They are
  JavaScript arrays, shared with the caller, so a function that may write to one of them
  returns the collections as it leaves them.
\<close>

record feeds =
  orders :: "IDineInOrder list"
  dishes :: "IDish list"
  tables :: "IDineInTable list"
  tableStats :: "IDineInTableStats list"

section \<open>The aggregation \<^verbatim>\<open>genOrders\<close> (lines 69-100)\<close>

text \<open>The callback of \<^verbatim>\<open>order.items.map\<close>, lines 75-88.\<close>

definition orderItem :: "IDish list \<Rightarrow> IDineInTableStats option \<Rightarrow> order_item \<Rightarrow> view_item" where
  "orderItem ds tableData item =
     (let dish = find (\<lambda>d. d_id d = dish_id item) ds;
          statItem = (case tableData of
                        None \<Rightarrow> None
                      | Some td \<Rightarrow> find (\<lambda>i. s_dish_id i = dish_id item) (st_items td))
      in \<lparr> dish_id = dish_id item,
           quantity = quantity item,
           instructions = instructions item,
           dish_name = (case dish of None \<Rightarrow> ''Unknown Dish'' | Some d \<Rightarrow> d_name d),
           line_total =
             (case dish of None \<Rightarrow> 0 | Some d \<Rightarrow> if price d = 0 then 0 else price d)
               * quantity item,
           item_status = (case statItem of None \<Rightarrow> Pending | Some i \<Rightarrow> s_item_status i) \<rparr>)"

text \<open>The callback of the outer \<^verbatim>\<open>map\<close>, lines 71-100.\<close>

definition viewOrder :: "feeds \<Rightarrow> IDineInOrder \<Rightarrow> IFilterOrder" where
  "viewOrder fs order =
     (let table = find (\<lambda>t. table_number t = o_table_id order) (tables fs);
          tableData = find (\<lambda>stat. st_table_number stat = o_table_id order) (tableStats fs);
          orderItems = map (orderItem (dishes fs) tableData) (o_items order);
          tot = foldl (\<lambda>sum item. sum + line_total item) 0 orderItems
      in \<lparr> order_id = o_id order,
           table_id = (case table of None \<Rightarrow> ''Unknown'' | Some t \<Rightarrow> table_number t),
           updated_at = o_updated_at order,
           items = orderItems,
           total = tot,
           status = order_status order \<rparr>)"

text \<open>
  \<^verbatim>\<open>Array.prototype.sort\<close> sorts the array it is called on, in place and stably, and
  returns that same array (line 70); the comparator orders by creation time,
  newest first. The function returns the collections after the call and the view.
\<close>

definition genOrders :: "feeds \<Rightarrow> feeds \<times> IFilterOrder list" where
  "genOrders fs =
     (let sorted = sort_key (\<lambda>order. - created_at order) (orders fs);
          fs' = fs\<lparr>orders := sorted\<rparr>
      in (fs', map (viewOrder fs') sorted))"

section \<open>The tabs (lines 36, 102-107 and 122-124)\<close>

text \<open>
  The component state: \<^verbatim>\<open>activeTab\<close>, \<^verbatim>\<open>filteredOrders\<close> and
  \<^verbatim>\<open>loadingOrderId\<close> of lines 36-38. Two more fields record what the handlers do
  to the outside: the lines written to the console, and the remote calls issued, in
  order.
\<close>

datatype api_call =
    MarkOrderAsPreparing string
  | MarkOrderAsServed string
  | MarkOrderAsReady string
  | UpdateOrDeleteOrder string "item_ref list"

datatype log_entry =
    Error string
  | LogItems "item_ref list"

record panel =
  activeTab :: status
  filteredOrders :: "IFilterOrder list"
  loadingOrderId :: "string option"
  console :: "log_entry list"
  remote :: "api_call list"




text \<open>The initial state (lines 36-38) and the click on a tab (line 237).\<close>

definition initial_panel :: panel where
  "initial_panel =
     \<lparr> activeTab = Preparing, filteredOrders = [], loadingOrderId = None,
       console = [], remote = [] \<rparr>"

definition setActiveTab :: "status \<Rightarrow> panel \<Rightarrow> panel" where
  "setActiveTab tab s = s\<lparr>activeTab := tab\<rparr>"

text \<open>
  The effect of lines 122-124: it runs when the active tab or one of the props changes,
  and replaces the visible list by the members of the active tab.
\<close>

definition filterEffect :: "IFilterOrder list \<Rightarrow> panel \<Rightarrow> panel" where
  "filterEffect gen s = s\<lparr>filteredOrders := filter (\<lambda>order. status order = activeTab s) gen\<rparr>"

section \<open>The status change \<^verbatim>\<open>handleStatusChange\<close> (lines 126-183)\<close>

text \<open>
  The token read from \<^verbatim>\<open>localStorage\<close> is a parameter; \<^verbatim>\<open>!token\<close> holds for a
  missing item and for the empty string.
\<close>

definition no_token :: "string option \<Rightarrow> bool" where
  "no_token token = (case token of None \<Rightarrow> True | Some t \<Rightarrow> t = [])"

text \<open>
  The \<^verbatim>\<open>switch\<close> of lines 139-154: the next status, and the remote call that the
  branch awaits (none in the default branch).
\<close>

fun status_switch :: "status \<Rightarrow> string \<Rightarrow> status \<times> api_call option" where
  "status_switch Pending oid = (Preparing, Some (MarkOrderAsPreparing oid))"
| "status_switch Preparing oid = (Served, Some (MarkOrderAsServed oid))"
| "status_switch Served oid = (Ready, Some (MarkOrderAsReady oid))"
| "status_switch Ready oid = (Ready, None)"

text \<open>The position of a status in the lifecycle of section 4.3 of the specification.\<close>

fun rank :: "status \<Rightarrow> nat" where
  "rank Pending = 0"
| "rank Preparing = 1"
| "rank Served = 2"
| "rank Ready = 3"

text \<open>The local update of lines 157-159.\<close>

definition patch :: "string \<Rightarrow> status \<Rightarrow> IFilterOrder list \<Rightarrow> IFilterOrder list" where
  "patch oid nextStatus prev =
     map (\<lambda>o'. if order_id o' = oid then o'\<lparr>status := nextStatus\<rparr> else o') prev"

text \<open>
  The handler is asynchronous, and runs in three parts, between which other handlers may
  run. The first part (lines 127-133) runs at the click. It ends the handler when there
  is no token.
\<close>

definition hsc_begin :: "string option \<Rightarrow> IFilterOrder \<Rightarrow> panel \<Rightarrow> panel" where
  "hsc_begin token order s =
     (let s1 = s\<lparr>loadingOrderId := Some (order_id order)\<rparr>
      in if no_token token
         then s1\<lparr>console := console s1 @ [Error ''No access token found in localStorage''],
                 loadingOrderId := None\<rparr>
         else s1)"

text \<open>
  The second part (lines 135-159 and 178-179): the remote call of the branch, whose
  outcome \<open>api_ok\<close> tells, and on success the local update. \<open>Inr\<close> is the state in
  which the handler starts to wait for the feed (line 162); \<open>Inl\<close> is the state after
  the \<^verbatim>\<open>catch\<close> block.
\<close>

definition hsc_call :: "(api_call \<Rightarrow> bool) \<Rightarrow> IFilterOrder \<Rightarrow> panel \<Rightarrow> panel + panel" where
  "hsc_call api_ok order s =
     (case status_switch (status order) (order_id order) of
        (nextStatus, None) \<Rightarrow>
          Inr (s\<lparr>filteredOrders := patch (order_id order) nextStatus (filteredOrders s)\<rparr>)
      | (nextStatus, Some c) \<Rightarrow>
          (let s1 = s\<lparr>remote := remote s @ [c]\<rparr>
           in if api_ok c
              then Inr (s1\<lparr>filteredOrders :=
                             patch (order_id order) nextStatus (filteredOrders s1)\<rparr>)
              else Inl (s1\<lparr>console := console s1 @ [Error ''Failed to update order status:'']\<rparr>)))"

text \<open>The \<^verbatim>\<open>finally\<close> block, lines 180-182.\<close>

definition hsc_finally :: "panel \<Rightarrow> panel" where
  "hsc_finally s = s\<lparr>loadingOrderId := None\<rparr>"


text \<open>Line 323: the button is rendered unless the order is ready.\<close>

definition advanceShown :: "IFilterOrder \<Rightarrow> bool" where
  "advanceShown order = (status order \<noteq> Ready)"


subsection \<open>The wait for the feed (lines 162-176)\<close>

text \<open>
  The two timers of the promise, on a clock that starts at 0 when the promise is
  created: the time at which the repeating check is due next (\<open>None\<close> once
  \<^verbatim>\<open>clearInterval\<close> has run), the time at which the timeout is due (\<open>None\<close> once it
  has fired; the source keeps no handle of it and never clears it), the value the
  promise has resolved with, and the times at which the feed was read.
\<close>

record timers =
  checkInterval :: "nat option"
  timeoutDue :: "nat option"
  resolved :: "bool option"
  checkedAt :: "nat list"

text \<open>What the callbacks read in \<^verbatim>\<open>orders\<close> at a given time.\<close>

type_synonym feed = "nat \<Rightarrow> IDineInOrder list"

text \<open>The executor of the promise: \<^verbatim>\<open>setInterval(..., 500)\<close>, \<^verbatim>\<open>setTimeout(..., 10000)\<close>.\<close>

definition poll_start :: timers where
  "poll_start =
     \<lparr> checkInterval = Some 500, timeoutDue = Some 10000, resolved = None, checkedAt = [] \<rparr>"

text \<open>Resolving a promise that has resolved already changes nothing.\<close>

definition resolve :: "bool \<Rightarrow> timers \<Rightarrow> timers" where
  "resolve v s = (case resolved s of None \<Rightarrow> s\<lparr>resolved := Some v\<rparr> | Some _ \<Rightarrow> s)"

text \<open>The test of lines 164-165.\<close>

definition feed_confirms :: "IDineInOrder list \<Rightarrow> string \<Rightarrow> status \<Rightarrow> bool" where
  "feed_confirms os oid nextStatus =
     (case find (\<lambda>o'. o_id o' = oid) os of
        None \<Rightarrow> False
      | Some updatedOrder \<Rightarrow> order_status updatedOrder = nextStatus)"

text \<open>The callback of the interval (lines 163-169), run at time \<open>t\<close>.\<close>

definition interval_tick :: "feed \<Rightarrow> string \<Rightarrow> status \<Rightarrow> nat \<Rightarrow> timers \<Rightarrow> timers" where
  "interval_tick fd oid nextStatus t s =
     (let s1 = s\<lparr>checkedAt := checkedAt s @ [t]\<rparr>
      in if feed_confirms (fd t) oid nextStatus
         then resolve True (s1\<lparr>checkInterval := None\<rparr>)
         else s1\<lparr>checkInterval := Some (t + 500)\<rparr>)"

text \<open>The callback of the timeout (lines 172-175).\<close>

definition timeout_fire :: "timers \<Rightarrow> timers" where
  "timeout_fire s = resolve False (s\<lparr>timeoutDue := None, checkInterval := None\<rparr>)"

text \<open>
  The timers run in the order of their due times; when both are due at the same time the
  interval, registered first, runs first. \<open>run_until fd oid nextStatus t s\<close> runs every
  callback due at time \<open>t\<close> or before.
\<close>

function run_until :: "feed \<Rightarrow> string \<Rightarrow> status \<Rightarrow> nat \<Rightarrow> timers \<Rightarrow> timers" where
  "run_until fd oid nextStatus t s =
     (case checkInterval s of
        Some ti \<Rightarrow>
          (case timeoutDue s of
             Some tt \<Rightarrow>
               if ti \<le> tt
               then (if ti \<le> t
                     then run_until fd oid nextStatus t (interval_tick fd oid nextStatus ti s)
                     else s)
               else (if tt \<le> t then run_until fd oid nextStatus t (timeout_fire s) else s)
           | None \<Rightarrow>
               if ti \<le> t
               then run_until fd oid nextStatus t (interval_tick fd oid nextStatus ti s)
               else s)
      | None \<Rightarrow>
          (case timeoutDue s of
             Some tt \<Rightarrow>
               if tt \<le> t then run_until fd oid nextStatus t (timeout_fire s) else s
           | None \<Rightarrow> s))"
  by pat_completeness auto
termination
  by (relation "measure (\<lambda>(fd, oid, nextStatus, t, s).
         (case checkInterval s of Some ti \<Rightarrow> t + 500 - ti | None \<Rightarrow> 0) +
         (case timeoutDue s of Some tt \<Rightarrow> 1 | None \<Rightarrow> 0))")
     (auto simp: interval_tick_def timeout_fire_def resolve_def Let_def split: option.splits)

text \<open>The state of the wait at time \<open>t\<close>.\<close>

definition poll :: "feed \<Rightarrow> string \<Rightarrow> status \<Rightarrow> nat \<Rightarrow> timers" where
  "poll fd oid nextStatus t = run_until fd oid nextStatus t poll_start"

text \<open>
  The whole handler, when no other handler runs in between: the \<^verbatim>\<open>finally\<close> block
  runs after the \<^verbatim>\<open>catch\<close> block, or once the promise of the wait has resolved. A
  promise that never resolved would leave the handler in the state of the wait.
\<close>

definition handleStatusChange ::
  "string option \<Rightarrow> (api_call \<Rightarrow> bool) \<Rightarrow> feed \<Rightarrow> IFilterOrder \<Rightarrow> panel \<Rightarrow> panel" where
  "handleStatusChange token api_ok fd order s =
     (if no_token token then hsc_begin token order s
      else (case hsc_call api_ok order (hsc_begin token order s) of
              Inl s' \<Rightarrow> hsc_finally s'
            | Inr s' \<Rightarrow>
                (case resolved (poll fd (order_id order)
                                 (fst (status_switch (status order) (order_id order))) 10000) of
                   None \<Rightarrow> s'
                 | Some _ \<Rightarrow> hsc_finally s')))"

section \<open>The removal of an item \<^verbatim>\<open>handleRemoveItem\<close> (lines 200-226)\<close>

text \<open>Line 299: the condition under which the button \<^verbatim>\<open>Remove\<close> is rendered.\<close>

definition removeEnabled :: "IFilterOrder \<Rightarrow> view_item \<Rightarrow> bool" where
  "removeEnabled order item = (status order = Pending \<and> item_status item = Pending)"

text \<open>Lines 202-204: the list that the handler submits.\<close>

definition updatedItems :: "IFilterOrder \<Rightarrow> string \<Rightarrow> item_ref list" where
  "updatedItems order did =
     map (\<lambda>item. \<lparr> dish_id = dish_id item, quantity = quantity item \<rparr>)
       (filter (\<lambda>item. dish_id item \<noteq> did) (items order))"

text \<open>
  The answer to \<^verbatim>\<open>window.confirm\<close>, the token and the outcome of the remote call are
  parameters.
\<close>

definition handleRemoveItem ::
  "bool \<Rightarrow> string option \<Rightarrow> (api_call \<Rightarrow> bool) \<Rightarrow> IFilterOrder \<Rightarrow> string \<Rightarrow> panel \<Rightarrow> panel" where
  "handleRemoveItem confirmed token api_ok order did s =
     (if confirmed
      then (let s1 = s\<lparr>console := console s @ [LogItems (updatedItems order did)]\<rparr>
            in if no_token token
               then s1\<lparr>console := console s1 @ [Error ''No access token found in localStorage'']\<rparr>
               else (let c = UpdateOrDeleteOrder (order_id order) (updatedItems order did);
                         s2 = s1\<lparr>remote := remote s1 @ [c]\<rparr>
                     in if api_ok c then s2
                        else s2\<lparr>console := console s2 @ [Error ''Failed to update order:'']\<rparr>))
      else s)"

section \<open>An invariant of the wait\<close>

text \<open>
  What holds of the timers in every state that the wait reaches: the promise is unresolved
  exactly while the interval is active; the timeout is due at 10000 until it fires, and
  the interval is gone once the timeout has fired; the next check is one interval after
  the last; the feed has been read at the multiples of 500, at most twenty times.
\<close>

definition poll_inv :: "timers \<Rightarrow> bool" where
  "poll_inv s =
     ((resolved s = None \<longleftrightarrow> checkInterval s \<noteq> None) \<and>
      (timeoutDue s = None \<or> timeoutDue s = Some 10000) \<and>
      (timeoutDue s = None \<longrightarrow> checkInterval s = None) \<and>
      (\<forall>ti. checkInterval s = Some ti \<longrightarrow> ti = 500 * Suc (length (checkedAt s)) \<and> ti \<le> 10500) \<and>
      checkedAt s = map (\<lambda>k. 500 * Suc k) [0..<length (checkedAt s)] \<and>
      length (checkedAt s) \<le> 20)"

section \<open>Example inputs\<close>

definition dish_dosa :: IDish where
  "dish_dosa = \<lparr> d_id = ''d1'', d_name = ''Dosa'', price = 50 \<rparr>"

definition item_two_dosa :: order_item where
  "item_two_dosa = \<lparr> dish_id = ''d1'', quantity = 2, instructions = None \<rparr>"

definition item_ghost :: order_item where
  "item_ghost = \<lparr> dish_id = ''zz'', quantity = 3, instructions = None \<rparr>"

definition item_minus_dosa :: order_item where
  "item_minus_dosa = \<lparr> dish_id = ''d1'', quantity = - 1, instructions = None \<rparr>"

definition order_early :: IDineInOrder where
  "order_early = \<lparr> o_id = ''o1'', o_table_id = ''T1'', created_at = 1, o_updated_at = ''u1'',
     order_status = Pending, o_items = [item_two_dosa, item_ghost] \<rparr>"

definition order_late :: IDineInOrder where
  "order_late = \<lparr> o_id = ''o2'', o_table_id = ''T2'', created_at = 2, o_updated_at = ''u2'',
     order_status = Preparing, o_items = [item_two_dosa] \<rparr>"

definition feeds_two :: feeds where
  "feeds_two = \<lparr> orders = [order_early, order_late], dishes = [dish_dosa],
     tables = [\<lparr> table_number = ''T1'' \<rparr>], tableStats = [] \<rparr>"

definition order_minus :: IDineInOrder where
  "order_minus = \<lparr> o_id = ''o3'', o_table_id = ''T1'', created_at = 3, o_updated_at = ''u3'',
     order_status = Pending, o_items = [item_minus_dosa] \<rparr>"

definition feeds_minus :: feeds where
  "feeds_minus = \<lparr> orders = [order_minus], dishes = [dish_dosa], tables = [], tableStats = [] \<rparr>"

definition view_early :: IFilterOrder where
  "view_early =
     \<lparr> order_id = ''o1'', table_id = ''T1'', updated_at = ''u1'',
       items =
         [\<lparr> dish_id = ''d1'', quantity = 2, instructions = None, dish_name = ''Dosa'',
            line_total = 100, item_status = Pending \<rparr>,
          \<lparr> dish_id = ''zz'', quantity = 3, instructions = None, dish_name = ''Unknown Dish'',
            line_total = 0, item_status = Pending \<rparr>],
       total = 100, status = Pending \<rparr>"

definition view_late :: IFilterOrder where
  "view_late =
     \<lparr> order_id = ''o2'', table_id = ''Unknown'', updated_at = ''u2'',
       items =
         [\<lparr> dish_id = ''d1'', quantity = 2, instructions = None, dish_name = ''Dosa'',
            line_total = 100, item_status = Pending \<rparr>],
       total = 100, status = Preparing \<rparr>"

text \<open>A feed that shows the two example orders at every time.\<close>

definition feed_two :: feed where
  "feed_two t = [order_early, order_late]"

text \<open>Remote calls that all succeed, and remote calls that all fail.\<close>

definition api_all_ok :: "api_call \<Rightarrow> bool" where
  "api_all_ok c = True"

definition api_all_fail :: "api_call \<Rightarrow> bool" where
  "api_all_fail c = False"

text \<open>
  The panel on the tab of the new orders, showing the view of \<open>feeds_two\<close>; the same
  panel after the first example order has been advanced; and the initial panel after
  the buttons of both example orders have been clicked, one after the other.
\<close>

definition panel_pending_tab :: panel where
  "panel_pending_tab = filterEffect [view_late, view_early] (setActiveTab Pending initial_panel)"



section \<open>Properties of the aggregation\<close>

lemmas example_defs =
  feeds_two_def order_early_def order_late_def dish_dosa_def item_two_dosa_def item_ghost_def
  item_minus_dosa_def view_early_def view_late_def order_minus_def feeds_minus_def

lemma foldl_line_total:
  "foldl (\<lambda>sum item. sum + line_total item) a xs = a + sum_list (map line_total xs)"
  by (induction xs arbitrary: a) simp_all

lemma viewOrder_items:
  "items (viewOrder fs order) =
     map (orderItem (dishes fs)
            (find (\<lambda>stat. st_table_number stat = o_table_id order) (tableStats fs)))
         (o_items order)"
  by (simp add: viewOrder_def Let_def)

lemma viewOrder_total:
  "total (viewOrder fs order) = sum_list (map line_total (items (viewOrder fs order)))"
  by (simp add: viewOrder_def Let_def foldl_line_total)

lemma orderItem_unmatched:
  "find (\<lambda>d. d_id d = dish_id item) ds = None \<Longrightarrow>
     dish_name (orderItem ds td item) = ''Unknown Dish'' \<and> line_total (orderItem ds td item) = 0"
  by (simp add: orderItem_def Let_def)

lemma orderItem_matched:
  "find (\<lambda>d. d_id d = dish_id item) ds = Some d \<Longrightarrow>
     dish_name (orderItem ds td item) = d_name d \<and>
     line_total (orderItem ds td item) = price d * quantity item"
  by (simp add: orderItem_def Let_def)

lemma orderItem_fields:
  "dish_id (orderItem ds td item) = dish_id item \<and> quantity (orderItem ds td item) = quantity item"
  by (simp add: orderItem_def Let_def)

lemma orderItem_resolved:
  "(case find (\<lambda>d. d_id d = dish_id item) ds of
      None \<Rightarrow> dish_name (orderItem ds td item) = ''Unknown Dish'' \<and>
              line_total (orderItem ds td item) = 0
    | Some d \<Rightarrow> dish_name (orderItem ds td item) = d_name d \<and>
              line_total (orderItem ds td item) = price d * quantity item)"
  by (simp add: orderItem_def Let_def split: option.splits)

lemma genOrders_member:
  "v \<in> set (snd (genOrders fs)) \<Longrightarrow> \<exists>order \<in> set (orders fs). v = viewOrder (fst (genOrders fs)) order"
  by (auto simp: genOrders_def Let_def)

lemma genOrders_frame:
  "dishes (fst (genOrders fs)) = dishes fs \<and> tables (fst (genOrders fs)) = tables fs \<and>
   tableStats (fst (genOrders fs)) = tableStats fs \<and>
   mset (orders (fst (genOrders fs))) = mset (orders fs)"
  by (simp add: genOrders_def Let_def)

lemma genOrders_feeds_two: "snd (genOrders feeds_two) = [view_late, view_early]"
  by (simp add: genOrders_def viewOrder_def orderItem_def Let_def example_defs)

text \<open>
  Claim C4: every order of the view stems from an order of the feed, with the same dish
  ids and quantities; its total is the sum of the line totals of its items; an item whose
  dish id is in the dish list has that dish's name and price times quantity as line total,
  and an item whose dish id is not has the name "Unknown Dish" and the line total 0.
\<close>

theorem total_is_sum_of_line_totals:
  assumes "v \<in> set (snd (genOrders fs))"
  shows "total v = sum_list (map line_total (items v)) \<and>
         (\<exists>order \<in> set (orders fs).
            order_id v = o_id order \<and>
            map dish_id (items v) = map dish_id (o_items order) \<and>
            map quantity (items v) = map quantity (o_items order)) \<and>
         (\<forall>it \<in> set (items v).
            case find (\<lambda>d. d_id d = dish_id it) (dishes fs) of
              None \<Rightarrow> dish_name it = ''Unknown Dish'' \<and> line_total it = 0
            | Some d \<Rightarrow> dish_name it = d_name d \<and> line_total it = price d * quantity it)"
proof -
  from genOrders_member[OF assms] obtain order where
    o: "order \<in> set (orders fs)" and v: "v = viewOrder (fst (genOrders fs)) order"
    by blast
  let ?fs = "fst (genOrders fs)"
  let ?td = "find (\<lambda>stat. st_table_number stat = o_table_id order) (tableStats ?fs)"
  have its: "items v = map (orderItem (dishes fs) ?td) (o_items order)"
    using v viewOrder_items[of ?fs order] genOrders_frame[of fs] by simp
  have 1: "total v = sum_list (map line_total (items v))"
    using v by (simp add: viewOrder_total)
  have 2: "order_id v = o_id order" using v by (simp add: viewOrder_def Let_def)
  have 3: "map dish_id (items v) = map dish_id (o_items order)"
    using its by (simp add: orderItem_fields comp_def)
  have 4: "map quantity (items v) = map quantity (o_items order)"
    using its by (simp add: orderItem_fields comp_def)
  have 5: "case find (\<lambda>d. d_id d = dish_id it) (dishes fs) of
              None \<Rightarrow> dish_name it = ''Unknown Dish'' \<and> line_total it = 0
            | Some d \<Rightarrow> dish_name it = d_name d \<and> line_total it = price d * quantity it"
    if "it \<in> set (items v)" for it
  proof -
    from that its obtain item where it: "it = orderItem (dishes fs) ?td item" by auto
    show ?thesis
      using orderItem_resolved[where item = item and ds = "dishes fs" and td = ?td]
        orderItem_fields[where item = item and ds = "dishes fs" and td = ?td]
      by (auto simp: it split: option.splits)
  qed
  from 1 2 3 4 5 o show ?thesis by blast
qed

text \<open>The first example order: one matched and one unmatched item.\<close>

theorem total_is_sum_of_line_totals_witness:
  "view_early \<in> set (snd (genOrders feeds_two)) \<and>
   total view_early = sum_list (map line_total (items view_early)) \<and>
   total view_early = 100 \<and>
   map dish_name (items view_early) = [''Dosa'', ''Unknown Dish''] \<and>
   map line_total (items view_early) = [100, 0]"
proof -
  have m: "view_early \<in> set (snd (genOrders feeds_two))"
    by (simp add: genOrders_feeds_two)
  from total_is_sum_of_line_totals[OF m] have "total view_early = sum_list (map line_total (items view_early))"
    by blast
  with m show ?thesis by (simp add: view_early_def)
qed

text \<open>
  Claim C7: as stated, for every item, the claim fails: nothing checks the
  quantity or the price. What holds: a line total is not negative when the item's
  quantity is not negative and no dish of the dish list has a negative price.
\<close>

theorem line_total_nonneg:
  assumes "v \<in> set (snd (genOrders fs))" and "it \<in> set (items v)"
    and "0 \<le> quantity it" and "\<forall>d \<in> set (dishes fs). 0 \<le> price d"
  shows "0 \<le> line_total it"
proof -
  from genOrders_member[OF assms(1)] obtain order where
    v: "v = viewOrder (fst (genOrders fs)) order" by blast
  let ?td = "find (\<lambda>stat. st_table_number stat = o_table_id order) (tableStats (fst (genOrders fs)))"
  from assms(2) v obtain item where it: "it = orderItem (dishes fs) ?td item"
    using viewOrder_items[of "fst (genOrders fs)" order] genOrders_frame[of fs] by auto
  have q: "0 \<le> quantity item" using assms(3) it orderItem_fields[where item = item and ds = "dishes fs" and td = ?td] by simp
  show ?thesis
  proof (cases "find (\<lambda>d. d_id d = dish_id item) (dishes fs)")
    case None
    then show ?thesis using it by (simp add: orderItem_unmatched)
  next
    case (Some d)
    then have "d \<in> set (dishes fs)" by (auto simp: find_Some_iff)
    with assms(4) have "0 \<le> price d" by blast
    with q Some it show ?thesis by (simp add: orderItem_matched)
  qed
qed

theorem line_total_nonneg_witness:
  "view_early \<in> set (snd (genOrders feeds_two)) \<and> hd (items view_early) \<in> set (items view_early) \<and>
   0 \<le> quantity (hd (items view_early)) \<and> 0 \<le> price dish_dosa \<and>
   dishes feeds_two = [dish_dosa] \<and>
   0 \<le> line_total (hd (items view_early)) \<and> line_total (hd (items view_early)) = 100"
proof -
  have m: "view_early \<in> set (snd (genOrders feeds_two))"
    by (simp add: genOrders_feeds_two)
  have i: "hd (items view_early) \<in> set (items view_early)" by (simp add: view_early_def)
  have q: "0 \<le> quantity (hd (items view_early))" by (simp add: view_early_def)
  have p: "\<forall>d \<in> set (dishes feeds_two). 0 \<le> price d" by (simp add: feeds_two_def dish_dosa_def)
  from line_total_nonneg[OF m i q p] m i q show ?thesis
    by (simp add: view_early_def feeds_two_def dish_dosa_def)
qed

text \<open>A quantity of -1 of a dish priced 50 gives the line total -50.\<close>

theorem negative_quantity_gives_negative_total:
  "line_total (hd (items (hd (snd (genOrders feeds_minus))))) = - 50"
  by (simp add: genOrders_def viewOrder_def orderItem_def Let_def example_defs)

text \<open>
  Claim C2: the claim says that computing the view leaves the four collections as they
  were. The sort of line 70 works in place on the prop \<^verbatim>\<open>orders\<close>: on a feed
  that lists an older order before a newer one, the collection is in another order
  after the call. The other three collections are only read, and the orders are only
  permuted (\<open>genOrders_frame\<close>).
\<close>

theorem genOrders_reorders_orders:
  "orders feeds_two = [order_early, order_late] \<and>
   orders (fst (genOrders feeds_two)) = [order_late, order_early] \<and>
   orders (fst (genOrders feeds_two)) \<noteq> orders feeds_two"
  by (simp add: genOrders_def Let_def example_defs)

section \<open>Properties of the wait for the feed\<close>

lemma poll_inv_start: "poll_inv poll_start"
  by (simp add: poll_inv_def poll_start_def)

lemma poll_inv_tick:
  assumes "poll_inv s" "checkInterval s = Some ti" "ti \<le> 10000"
  shows "poll_inv (interval_tick fd oid n ti s)"
  using assms
  by (auto simp: poll_inv_def interval_tick_def resolve_def Let_def split: option.splits)

lemma poll_inv_timeout: "poll_inv s \<Longrightarrow> poll_inv (timeout_fire s)"
  by (auto simp: poll_inv_def timeout_fire_def resolve_def split: option.splits)

declare run_until.simps [simp del]

text \<open>The invariant holds after any run of the timers.\<close>

lemma run_until_inv: "poll_inv s \<Longrightarrow> poll_inv (run_until fd oid n t s)"
proof (induction fd oid n t s rule: run_until.induct)
  case (1 fd oid n t s)
  show ?case
  proof (cases "checkInterval s")
    case None
    note ci = None
    show ?thesis
    proof (cases "timeoutDue s")
      case None
      with ci "1.prems" show ?thesis by (simp add: run_until.simps[of fd oid n t s])
    next
      case (Some tt)
      with ci "1.prems" "1.IH" poll_inv_timeout[of s] show ?thesis
        by (simp add: run_until.simps[of fd oid n t s])
    qed
  next
    case (Some ti)
    note ci = Some
    from "1.prems" ci have tt: "timeoutDue s = Some 10000"
      by (auto simp: poll_inv_def)
    show ?thesis
    proof (cases "ti \<le> 10000")
      case True
      with ci tt "1.prems" "1.IH" poll_inv_tick[of s ti fd oid n] show ?thesis
        by (simp add: run_until.simps[of fd oid n t s])
    next
      case False
      with ci tt "1.prems" "1.IH" poll_inv_timeout[of s] show ?thesis
        by (simp add: run_until.simps[of fd oid n t s])
    qed
  qed
qed

text \<open>
  A property that each callback preserves, on the states of the invariant and at the
  times at which the callback can run, holds after the run.
\<close>

lemma run_until_steps:
  assumes "poll_inv s" and "P s"
    and "\<forall>s ti. poll_inv s \<longrightarrow> P s \<longrightarrow> checkInterval s = Some ti \<longrightarrow> ti \<le> 10000 \<longrightarrow> ti \<le> t \<longrightarrow>
           P (interval_tick fd oid n ti s)"
    and "\<forall>s. poll_inv s \<longrightarrow> P s \<longrightarrow> timeoutDue s = Some 10000 \<longrightarrow> 10000 \<le> t \<longrightarrow> P (timeout_fire s)"
  shows "P (run_until fd oid n t s)"
  using assms
proof (induction fd oid n t s rule: run_until.induct)
  case (1 fd oid n t s)
  note inv = "1.prems"(1) and tick = "1.prems"(3) and fire = "1.prems"(4)
  show ?case
  proof (cases "checkInterval s")
    case None
    note ci = None
    show ?thesis
    proof (cases "timeoutDue s")
      case None
      with ci "1.prems"(2) show ?thesis by (simp add: run_until.simps[of fd oid n t s])
    next
      case (Some tt)
      with inv have tt: "tt = 10000" by (auto simp: poll_inv_def)
      show ?thesis
      proof (cases "tt \<le> t")
        case True
        have "P (timeout_fire s)" using fire tt Some True "1.prems"(1,2) by simp
        with ci Some True "1.IH" poll_inv_timeout[OF inv] tick fire
        show ?thesis
          by (simp add: run_until.simps[of fd oid n t s])
      next
        case False
        with ci Some "1.prems"(2) show ?thesis by (simp add: run_until.simps[of fd oid n t s])
      qed
    qed
  next
    case (Some ti)
    note ci = Some
    from inv ci have tt: "timeoutDue s = Some 10000"
      by (auto simp: poll_inv_def)
    show ?thesis
    proof (cases "ti \<le> 10000")
      case True
      note le = True
      show ?thesis
      proof (cases "ti \<le> t")
        case True
        have "P (interval_tick fd oid n ti s)" using tick "1.prems"(1,2) ci le True by simp
        with ci tt le True "1.IH" poll_inv_tick[OF inv ci le] tick fire
        show ?thesis by (simp add: run_until.simps[of fd oid n t s])
      next
        case False
        with ci tt le "1.prems"(2) show ?thesis by (simp add: run_until.simps[of fd oid n t s])
      qed
    next
      case False
      note gt = False
      show ?thesis
      proof (cases "10000 \<le> t")
        case True
        have "P (timeout_fire s)" using fire "1.prems"(1,2) tt True by simp
        with ci tt gt True "1.IH" poll_inv_timeout[OF inv] tick fire
        show ?thesis by (simp add: run_until.simps[of fd oid n t s])
      next
        case False
        with ci tt gt "1.prems"(2) show ?thesis by (simp add: run_until.simps[of fd oid n t s])
      qed
    qed
  qed
qed

text \<open>After the run to time \<open>t\<close>, what is still pending is due later than \<open>t\<close>.\<close>

lemma run_until_quiet:
  "poll_inv s \<Longrightarrow>
     (\<forall>ti. checkInterval (run_until fd oid n t s) = Some ti \<longrightarrow> t < ti) \<and>
     (\<forall>tt. timeoutDue (run_until fd oid n t s) = Some tt \<longrightarrow> t < tt)"
proof (induction fd oid n t s rule: run_until.induct)
  case (1 fd oid n t s)
  note inv = "1.prems"
  show ?case
  proof (cases "checkInterval s")
    case None
    note ci = None
    show ?thesis
    proof (cases "timeoutDue s")
      case None
      with ci show ?thesis by (simp add: run_until.simps[of fd oid n t s])
    next
      case (Some tt)
      with ci "1.IH" poll_inv_timeout[OF inv] show ?thesis
        by (simp add: run_until.simps[of fd oid n t s])
    qed
  next
    case (Some ti)
    note ci = Some
    from inv ci have tt: "timeoutDue s = Some 10000"
      by (auto simp: poll_inv_def)
    show ?thesis
    proof (cases "ti \<le> 10000")
      case True
      with ci tt "1.IH" poll_inv_tick[OF inv ci True] show ?thesis
        by (simp add: run_until.simps[of fd oid n t s])
    next
      case False
      with ci tt "1.IH" poll_inv_timeout[OF inv] show ?thesis
        by (simp add: run_until.simps[of fd oid n t s])
    qed
  qed
qed

lemma run_until_timeout_kept:
  assumes "poll_inv s" "timeoutDue s = Some 10000" "t < 10000"
  shows "timeoutDue (run_until fd oid n t s) = Some 10000"
  by (rule run_until_steps[where P = "\<lambda>s. timeoutDue s = Some 10000"])
     (use assms in \<open>auto simp: interval_tick_def resolve_def Let_def split: option.splits\<close>)

lemma run_until_checked_le:
  assumes "poll_inv s" "\<forall>x \<in> set (checkedAt s). x \<le> t"
  shows "\<forall>x \<in> set (checkedAt (run_until fd oid n t s)). x \<le> t"
  by (rule run_until_steps[where P = "\<lambda>s. \<forall>x \<in> set (checkedAt s). x \<le> t"])
     (use assms in \<open>auto simp: interval_tick_def timeout_fire_def resolve_def Let_def split: option.splits\<close>)

lemma run_until_success_iff:
  assumes "poll_inv s"
    "resolved s = Some True \<longleftrightarrow> (\<exists>x \<in> set (checkedAt s). feed_confirms (fd x) oid n)"
  shows "resolved (run_until fd oid n t s) = Some True \<longleftrightarrow>
           (\<exists>x \<in> set (checkedAt (run_until fd oid n t s)). feed_confirms (fd x) oid n)"
  by (rule run_until_steps[where P = "\<lambda>s. resolved s = Some True \<longleftrightarrow>
           (\<exists>x \<in> set (checkedAt s). feed_confirms (fd x) oid n)"])
     (use assms in \<open>auto simp: poll_inv_def interval_tick_def timeout_fire_def resolve_def Let_def
                       split: option.splits\<close>)

lemma poll_inv_poll: "poll_inv (poll fd oid n t)"
  unfolding poll_def by (rule run_until_inv[OF poll_inv_start])

lemma poll_timeoutDue: "timeoutDue (poll fd oid n t) = (if t < 10000 then Some 10000 else None)"
proof (cases "t < 10000")
  case True
  then show ?thesis
    unfolding poll_def
    using run_until_timeout_kept[OF poll_inv_start, of t fd oid n] by (simp add: poll_start_def)
next
  case False
  have "\<forall>tt. timeoutDue (poll fd oid n t) = Some tt \<longrightarrow> t < tt"
    unfolding poll_def using run_until_quiet[OF poll_inv_start] by blast
  moreover have "timeoutDue (poll fd oid n t) = None \<or> timeoutDue (poll fd oid n t) = Some 10000"
    using poll_inv_poll[of fd oid n t] by (simp add: poll_inv_def)
  ultimately show ?thesis using False by auto
qed

lemma poll_checked_times:
  "checkedAt (poll fd oid n t) = map (\<lambda>k. 500 * Suc k) [0..<length (checkedAt (poll fd oid n t))] \<and>
   length (checkedAt (poll fd oid n t)) \<le> 20"
  using poll_inv_poll[of fd oid n t] by (simp add: poll_inv_def)

lemma poll_unresolved_checks:
  assumes "resolved (poll fd oid n t) = None"
  shows "length (checkedAt (poll fd oid n t)) = t div 500"
proof -
  let ?r = "poll fd oid n t"
  let ?m = "length (checkedAt ?r)"
  have inv: "poll_inv ?r" by (rule poll_inv_poll)
  from inv assms obtain ti where ti: "checkInterval ?r = Some ti"
    by (auto simp: poll_inv_def)
  with inv have eq: "ti = 500 * Suc ?m" by (simp add: poll_inv_def)
  have "t < ti" using run_until_quiet[OF poll_inv_start, of fd oid n t] ti
    by (simp add: poll_def)
  then have up: "t < 500 * Suc ?m" using eq by simp
  have le: "\<forall>x \<in> set (checkedAt ?r). x \<le> t"
    unfolding poll_def
    by (rule run_until_checked_le[OF poll_inv_start]) (simp add: poll_start_def)
  have lo: "500 * ?m \<le> t"
  proof (cases "?m")
    case 0
    then show ?thesis by simp
  next
    case (Suc j)
    from inv have "checkedAt ?r = map (\<lambda>k. 500 * Suc k) [0..<?m]" by (simp add: poll_inv_def)
    then have "checkedAt ?r ! j = 500 * Suc j" using Suc
      by (metis add_0 lessI nth_map_upt minus_nat.diff_0)
    moreover have "checkedAt ?r ! j \<in> set (checkedAt ?r)" using Suc by simp
    ultimately show ?thesis using le Suc by auto
  qed
  from lo up show ?thesis by (simp add: div_nat_eqI)
qed

lemma feed_two_never: "\<not> feed_confirms (feed_two x) ''o1'' Preparing"
  by (simp add: feed_confirms_def feed_two_def order_early_def)

text \<open>
  Claim C1: as stated, the claim fails where the check succeeds: the callback of the
  interval clears the interval only, and the timeout stays pending. What holds at every
  time \<open>t\<close> of the wait: the feed has been read at the multiples of 500, at most twenty
  times, and at every multiple up to \<open>t\<close> while the promise is unresolved; the promise
  has resolved with true exactly when one of these reads found the order at the expected
  status; the interval is cleared exactly when the promise has resolved, by either callback;
  the timeout is pending at every time before 10000, whether the check succeeded or not, and
  is gone from then on; from time 10000 on the promise has resolved and no timer is pending.
\<close>

theorem reconciliation_wait_timers:
  "checkedAt (poll fd oid n t) = map (\<lambda>k. 500 * Suc k) [0..<length (checkedAt (poll fd oid n t))] \<and>
   length (checkedAt (poll fd oid n t)) \<le> 20 \<and>
   (resolved (poll fd oid n t) = None \<longrightarrow> length (checkedAt (poll fd oid n t)) = t div 500) \<and>
   (resolved (poll fd oid n t) = Some True \<longleftrightarrow>
      (\<exists>x \<in> set (checkedAt (poll fd oid n t)). feed_confirms (fd x) oid n)) \<and>
   (resolved (poll fd oid n t) \<noteq> None \<longleftrightarrow> checkInterval (poll fd oid n t) = None) \<and>
   timeoutDue (poll fd oid n t) = (if t < 10000 then Some 10000 else None) \<and>
   (10000 \<le> t \<longrightarrow> resolved (poll fd oid n t) \<noteq> None \<and> checkInterval (poll fd oid n t) = None)"
proof -
  have inv: "poll_inv (poll fd oid n t)" by (rule poll_inv_poll)
  have a: "resolved (poll fd oid n t) \<noteq> None \<longleftrightarrow> checkInterval (poll fd oid n t) = None"
    using inv by (auto simp: poll_inv_def)
  have b: "resolved (poll fd oid n t) = Some True \<longleftrightarrow>
      (\<exists>x \<in> set (checkedAt (poll fd oid n t)). feed_confirms (fd x) oid n)"
    unfolding poll_def
    by (rule run_until_success_iff[OF poll_inv_start]) (simp add: poll_start_def)
  have c: "10000 \<le> t \<longrightarrow> checkInterval (poll fd oid n t) = None"
    using inv poll_timeoutDue[of fd oid n t] by (auto simp: poll_inv_def)
  note p = poll_checked_times[of fd oid n t]
  show ?thesis
  proof (intro conjI impI)
    show "checkedAt (poll fd oid n t) =
            map (\<lambda>k. 500 * Suc k) [0..<length (checkedAt (poll fd oid n t))]"
      by (rule conjunct1[OF p])
    show "length (checkedAt (poll fd oid n t)) \<le> 20"
      by (rule conjunct2[OF p])
    show "length (checkedAt (poll fd oid n t)) = t div 500" if "resolved (poll fd oid n t) = None"
      using that by (rule poll_unresolved_checks)
    show "resolved (poll fd oid n t) = Some True \<longleftrightarrow>
      (\<exists>x \<in> set (checkedAt (poll fd oid n t)). feed_confirms (fd x) oid n)"
      by (rule b)
    show "resolved (poll fd oid n t) \<noteq> None \<longleftrightarrow> checkInterval (poll fd oid n t) = None"
      by (rule a)
    show "timeoutDue (poll fd oid n t) = (if t < 10000 then Some 10000 else None)"
      by (rule poll_timeoutDue)
    show "checkInterval (poll fd oid n t) = None" if "10000 \<le> t"
      using that c by simp
    then show "resolved (poll fd oid n t) \<noteq> None" if "10000 \<le> t"
      using that a by simp
  qed
qed

text \<open>A feed that never shows the expected status: the wait ends with the timeout.\<close>

theorem reconciliation_wait_timers_witness:
  "resolved (poll feed_two ''o1'' Preparing 10000) = Some False \<and>
   checkInterval (poll feed_two ''o1'' Preparing 10000) = None \<and>
   timeoutDue (poll feed_two ''o1'' Preparing 10000) = None"
proof -
  have "resolved (poll feed_two ''o1'' Preparing 10000) \<noteq> Some True"
    using reconciliation_wait_timers[of feed_two "''o1''" Preparing 10000] feed_two_never by blast
  then show ?thesis
    using reconciliation_wait_timers[of feed_two "''o1''" Preparing 10000]
    by (cases "resolved (poll feed_two ''o1'' Preparing 10000)") auto
qed

text \<open>
  A feed that shows the expected status at the first check, at time 500: the promise
  has resolved, the interval is cleared, and the timeout is still pending.
\<close>

theorem success_leaves_timeout_pending:
  "resolved (poll feed_two ''o2'' Preparing 500) = Some True \<and>
   checkInterval (poll feed_two ''o2'' Preparing 500) = None \<and>
   timeoutDue (poll feed_two ''o2'' Preparing 500) = Some 10000"
  by (simp add: poll_def poll_start_def run_until.simps interval_tick_def timeout_fire_def
        resolve_def feed_confirms_def feed_two_def order_early_def order_late_def Let_def)

section \<open>Properties of the status change\<close>

text \<open>The wait always ends: the timeout resolves the promise at the latest.\<close>

lemma poll_resolves: "resolved (poll fd oid n 10000) \<noteq> None"
  using poll_inv_poll[of fd oid n 10000] poll_timeoutDue[of fd oid n 10000]
  by (auto simp: poll_inv_def)

lemma hsc_begin_token:
  "\<not> no_token token \<Longrightarrow> hsc_begin token order s = s\<lparr>loadingOrderId := Some (order_id order)\<rparr>"
  by (simp add: hsc_begin_def Let_def)

lemma handleStatusChange_failure:
  assumes "\<not> no_token token"
    and "status_switch (status order) (order_id order) = (n, Some c)"
    and "\<not> api_ok c"
  shows "handleStatusChange token api_ok fd order s =
           s\<lparr>loadingOrderId := None, remote := remote s @ [c],
             console := console s @ [Error ''Failed to update order status:'']\<rparr>"
  using assms
  by (simp add: handleStatusChange_def hsc_begin_token hsc_call_def hsc_finally_def Let_def)

lemma handleStatusChange_success:
  assumes "\<not> no_token token"
    and "status_switch (status order) (order_id order) = (n, Some c)"
    and "api_ok c"
  shows "handleStatusChange token api_ok fd order s =
           s\<lparr>loadingOrderId := None, remote := remote s @ [c],
             filteredOrders := patch (order_id order) n (filteredOrders s)\<rparr>"
  using assms poll_resolves[of fd "order_id order" n]
  by (auto simp: handleStatusChange_def hsc_begin_token hsc_call_def hsc_finally_def Let_def
           split: option.splits)

lemma handleStatusChange_ready:
  assumes "\<not> no_token token" and "status order = Ready"
  shows "handleStatusChange token api_ok fd order s =
           s\<lparr>loadingOrderId := None,
             filteredOrders := patch (order_id order) Ready (filteredOrders s)\<rparr>"
  using assms poll_resolves[of fd "order_id order" Ready]
  by (auto simp: handleStatusChange_def hsc_begin_token hsc_call_def hsc_finally_def Let_def
           split: option.splits)

lemma handleStatusChange_remote:
  assumes "\<not> no_token token"
  shows "remote (handleStatusChange token api_ok fd order s) =
           remote s @ (case snd (status_switch (status order) (order_id order)) of
                         None \<Rightarrow> [] | Some c \<Rightarrow> [c])"
proof (cases "status_switch (status order) (order_id order)")
  case (Pair n co)
  show ?thesis
  proof (cases co)
    case None
    with Pair have "status order = Ready" by (cases "status order") auto
    with assms Pair None show ?thesis by (simp add: handleStatusChange_ready)
  next
    case (Some c)
    with Pair assms show ?thesis
      by (cases "api_ok c") (simp_all add: handleStatusChange_failure handleStatusChange_success)
  qed
qed

text \<open>
  Claim C3: the switch maps pending to preparing, preparing to served and served to
  ready, each with the remote call of its own; the next status of an order that is not
  ready is one step further in the lifecycle, never more and never less; with a token,
  the handler issues exactly the call of the order's current status, and none for a ready
  order; when the call succeeds the visible order is set to that next status; and the
  button that starts the handler is rendered exactly for the orders that are not ready.
\<close>

theorem advance_follows_lifecycle:
  "status_switch Pending oid = (Preparing, Some (MarkOrderAsPreparing oid)) \<and>
   status_switch Preparing oid = (Served, Some (MarkOrderAsServed oid)) \<and>
   status_switch Served oid = (Ready, Some (MarkOrderAsReady oid)) \<and>
   (status order \<noteq> Ready \<longrightarrow>
      rank (fst (status_switch (status order) (order_id order))) = Suc (rank (status order))) \<and>
   (\<not> no_token token \<longrightarrow>
      remote (handleStatusChange token api_ok fd order s) =
        remote s @ (case status order of
                      Pending \<Rightarrow> [MarkOrderAsPreparing (order_id order)]
                    | Preparing \<Rightarrow> [MarkOrderAsServed (order_id order)]
                    | Served \<Rightarrow> [MarkOrderAsReady (order_id order)]
                    | Ready \<Rightarrow> [])) \<and>
   (\<not> no_token token \<and> (\<forall>c. api_ok c) \<longrightarrow>
      filteredOrders (handleStatusChange token api_ok fd order s) =
        patch (order_id order) (fst (status_switch (status order) (order_id order)))
          (filteredOrders s)) \<and>
   (advanceShown order \<longleftrightarrow> status order \<noteq> Ready)"
proof (intro conjI impI)
  show "rank (fst (status_switch (status order) (order_id order))) = Suc (rank (status order))"
    if "status order \<noteq> Ready"
    using that by (cases "status order") simp_all
  show "remote (handleStatusChange token api_ok fd order s) =
        remote s @ (case status order of
                      Pending \<Rightarrow> [MarkOrderAsPreparing (order_id order)]
                    | Preparing \<Rightarrow> [MarkOrderAsServed (order_id order)]
                    | Served \<Rightarrow> [MarkOrderAsReady (order_id order)]
                    | Ready \<Rightarrow> [])"
    if "\<not> no_token token"
    using handleStatusChange_remote[OF that, of api_ok fd order s]
    by (cases "status order") simp_all
  show "filteredOrders (handleStatusChange token api_ok fd order s) =
        patch (order_id order) (fst (status_switch (status order) (order_id order)))
          (filteredOrders s)"
    if "\<not> no_token token \<and> (\<forall>c. api_ok c)"
    using that
    by (cases "status order") (simp_all add: handleStatusChange_success handleStatusChange_ready)
  show "advanceShown order \<longleftrightarrow> status order \<noteq> Ready"
    by (simp add: advanceShown_def)
qed simp_all

theorem advance_follows_lifecycle_witness:
  "status view_early \<noteq> Ready \<and> \<not> no_token (Some ''tok'') \<and>
   rank (fst (status_switch (status view_early) (order_id view_early))) = 1 \<and>
   remote (handleStatusChange (Some ''tok'') api_all_ok feed_two view_early panel_pending_tab) =
     [MarkOrderAsPreparing ''o1''] \<and>
   filteredOrders (handleStatusChange (Some ''tok'') api_all_ok feed_two view_early panel_pending_tab) =
     [view_early\<lparr>status := Preparing\<rparr>] \<and>
   advanceShown view_early"
  using advance_follows_lifecycle[of "''o1''" view_early "Some ''tok''" api_all_ok feed_two
          panel_pending_tab]
  by (simp add: view_early_def view_late_def no_token_def api_all_ok_def panel_pending_tab_def
        filterEffect_def setActiveTab_def initial_panel_def patch_def)

text \<open>
  Claim C5: when the remote call of the handler fails, the visible orders are the ones
  from before the call, the loading marker is cleared, the console has one more line, the
  error, and the remote trace has the one failed call and no second one.
\<close>

theorem failed_call_leaves_orders:
  assumes "\<not> no_token token"
    and "status_switch (status order) (order_id order) = (n, Some c)"
    and "\<not> api_ok c"
  shows "filteredOrders (handleStatusChange token api_ok fd order s) = filteredOrders s \<and>
         loadingOrderId (handleStatusChange token api_ok fd order s) = None \<and>
         console (handleStatusChange token api_ok fd order s) =
           console s @ [Error ''Failed to update order status:''] \<and>
         remote (handleStatusChange token api_ok fd order s) = remote s @ [c] \<and>
         activeTab (handleStatusChange token api_ok fd order s) = activeTab s"
  using assms by (simp add: handleStatusChange_failure)

theorem failed_call_leaves_orders_witness:
  "\<not> no_token (Some ''tok'') \<and>
   status_switch (status view_early) (order_id view_early) =
     (Preparing, Some (MarkOrderAsPreparing ''o1'')) \<and>
   \<not> api_all_fail (MarkOrderAsPreparing ''o1'') \<and>
   filteredOrders (handleStatusChange (Some ''tok'') api_all_fail feed_two view_early panel_pending_tab)
     = [view_early] \<and>
   loadingOrderId (handleStatusChange (Some ''tok'') api_all_fail feed_two view_early panel_pending_tab)
     = None \<and>
   console (handleStatusChange (Some ''tok'') api_all_fail feed_two view_early panel_pending_tab)
     = [Error ''Failed to update order status:''] \<and>
   remote (handleStatusChange (Some ''tok'') api_all_fail feed_two view_early panel_pending_tab)
     = [MarkOrderAsPreparing ''o1'']"
proof -
  have t: "\<not> no_token (Some ''tok'')" by (simp add: no_token_def)
  have sw: "status_switch (status view_early) (order_id view_early) =
     (Preparing, Some (MarkOrderAsPreparing ''o1''))" by (simp add: view_early_def)
  have f: "\<not> api_all_fail (MarkOrderAsPreparing ''o1'')" by (simp add: api_all_fail_def)
  from failed_call_leaves_orders[where api_ok = api_all_fail and fd = feed_two
         and s = panel_pending_tab, OF t sw f] t sw f
  show ?thesis
    by (simp add: panel_pending_tab_def filterEffect_def setActiveTab_def initial_panel_def
          view_early_def view_late_def)
qed

section \<open>Properties of the loading marker\<close>




section \<open>Properties of the tabs\<close>






section \<open>Properties of the removal of an item\<close>

text \<open>
  Claim C8: a confirmed removal, with a token, issues one remote call, the update of the
  order with its items without the removed dish, each entry a dish id and a quantity and
  nothing else; the visible orders are not touched, whether the call succeeds or fails; a
  declined removal does nothing; and the button of the removal is rendered exactly when
  the order is pending and the item is pending.
\<close>

theorem remove_submits_filtered_list:
  assumes "\<not> no_token token"
  shows "remote (handleRemoveItem True token api_ok order did s) =
           remote s @ [UpdateOrDeleteOrder (order_id order) (updatedItems order did)] \<and>
         updatedItems order did =
           map (\<lambda>item. \<lparr> dish_id = dish_id item, quantity = quantity item \<rparr>)
             (filter (\<lambda>item. dish_id item \<noteq> did) (items order)) \<and>
         did \<notin> dish_id ` set (updatedItems order did) \<and>
         filteredOrders (handleRemoveItem True token api_ok order did s) = filteredOrders s \<and>
         handleRemoveItem False token api_ok order did s = s \<and>
         (removeEnabled order it \<longleftrightarrow> status order = Pending \<and> item_status it = Pending)"
  using assms
  by (auto simp: handleRemoveItem_def updatedItems_def removeEnabled_def Let_def)

theorem remove_submits_filtered_list_witness:
  "\<not> no_token (Some ''tok'') \<and>
   remote (handleRemoveItem True (Some ''tok'') api_all_ok view_early ''zz'' panel_pending_tab) =
     [UpdateOrDeleteOrder ''o1'' [\<lparr> dish_id = ''d1'', quantity = 2 \<rparr>]] \<and>
   filteredOrders (handleRemoveItem True (Some ''tok'') api_all_ok view_early ''zz'' panel_pending_tab) =
     [view_early] \<and>
   removeEnabled view_early (hd (items view_early))"
  using remove_submits_filtered_list[of "Some ''tok''" api_all_ok view_early "''zz''"
          panel_pending_tab "hd (items view_early)"]
  by (simp add: no_token_def view_early_def view_late_def panel_pending_tab_def filterEffect_def
        setActiveTab_def initial_panel_def)

text \<open>
  Claim C10: the list that a confirmed removal submits, with a token, holds no entry of
  the removed dish, however many items of the order had it: its length is the number of
  items of the order less the number of those with the removed dish. When no item has
  that dish the call is issued all the same, with every item of the order, in order.
\<close>

theorem remove_drops_every_match:
  assumes "\<not> no_token token"
  shows "(\<exists>payload.
            remote (handleRemoveItem True token api_ok order did s) =
              remote s @ [UpdateOrDeleteOrder (order_id order) payload] \<and>
            (\<forall>e \<in> set payload. dish_id e \<noteq> did) \<and>
            length payload + length (filter (\<lambda>item. dish_id item = did) (items order)) =
              length (items order) \<and>
            ((\<forall>item \<in> set (items order). dish_id item \<noteq> did) \<longrightarrow>
               payload = map (\<lambda>item. \<lparr> dish_id = dish_id item, quantity = quantity item \<rparr>)
                           (items order)))"
proof -
  have 1: "\<forall>e \<in> set (updatedItems order did). dish_id e \<noteq> did"
    by (auto simp: updatedItems_def)
  have 2: "length (updatedItems order did) +
           length (filter (\<lambda>item. dish_id item = did) (items order)) = length (items order)"
    using sum_length_filter_compl[of "\<lambda>item. dish_id item = did" "items order"]
    by (simp add: updatedItems_def)
  have 3: "updatedItems order did =
             map (\<lambda>item. \<lparr> dish_id = dish_id item, quantity = quantity item \<rparr>) (items order)"
    if "\<forall>item \<in> set (items order). dish_id item \<noteq> did"
    using that by (simp add: updatedItems_def)
  have 4: "remote (handleRemoveItem True token api_ok order did s) =
              remote s @ [UpdateOrDeleteOrder (order_id order) (updatedItems order did)]"
    using assms by (simp add: handleRemoveItem_def Let_def)
  from 1 2 3 4 show ?thesis by blast
qed

theorem remove_drops_every_match_witness:
  "\<not> no_token (Some ''tok'') \<and>
   remote (handleRemoveItem True (Some ''tok'') api_all_ok view_early ''none'' panel_pending_tab) =
     [UpdateOrDeleteOrder ''o1''
        [\<lparr> dish_id = ''d1'', quantity = 2 \<rparr>, \<lparr> dish_id = ''zz'', quantity = 3 \<rparr>]]"
proof -
  have t: "\<not> no_token (Some ''tok'')" by (simp add: no_token_def)
  have nm: "\<forall>item \<in> set (items view_early). dish_id item \<noteq> ''none''"
    by (simp add: view_early_def)
  from remove_drops_every_match[OF t, of api_all_ok view_early "''none''" panel_pending_tab] nm
  have "remote (handleRemoveItem True (Some ''tok'') api_all_ok view_early ''none'' panel_pending_tab) =
          remote panel_pending_tab @ [UpdateOrDeleteOrder (order_id view_early)
            (map (\<lambda>item. \<lparr> dish_id = dish_id item, quantity = quantity item \<rparr>) (items view_early))]"
    by auto
  with t show ?thesis
    by (simp add: view_early_def panel_pending_tab_def filterEffect_def setActiveTab_def
          initial_panel_def)
qed

end
